theory Spec2Isabelle
  imports Main
begin

section \<open>The todo application of \<open>src/App.js\<close>\<close>

text \<open>
  The component \<open>App\<close> keeps an array of todo objects in React state and a counter
  \<open>nextId\<close> in a ref cell. Three handlers replace the array: \<open>onInsert\<close> (\<open>concat\<close>),
  \<open>onRemove\<close> (\<open>filter\<close>) and \<open>onToggle\<close> (\<open>map\<close> with an object spread).

  Several statements below are about which \<^emph>\<open>object\<close> an array element is, not only about
  its fields, so objects live in an explicit store: an array is a list of references, a
  reference is an address, and the store maps an address to the fields of the object there.
  Creating an object (an object literal or a spread) takes the next free address. How
  long an array may get and how much memory there is are bounds of the engine, and the
  model leaves them out.

  The ids of this program are whole numbers, held in JavaScript numbers, that is in
  IEEE-754 doubles. A whole-number double is modelled as the integer it stands for, and
  \<open>+\<close> on such doubles as the exact sum rounded to the nearest double, ties to even: up
  to \<open>2 ^ 53\<close> in size every whole number is a double and the sum is exact, beyond that
  it is not. Strings are byte strings (UTF-8).
\<close>

subsection \<open>Objects and the store\<close>

text \<open>The object literal \<open>{ id, text, checked }\<close>.\<close>

record todo =
  id' :: int
  text' :: string
  checked :: bool

type_synonym ref = nat

record heap =
  objs :: "ref \<rightharpoonup> todo"
  fresh :: ref

definition empty_heap :: heap where
  "empty_heap = \<lparr>objs = Map.empty, fresh = 0\<rparr>"

text \<open>Evaluating an object literal: a new object at the next free address.\<close>

definition alloc :: "todo \<Rightarrow> heap \<Rightarrow> ref \<times> heap" where
  "alloc v h = (fresh h, \<lparr>objs = (objs h)(fresh h \<mapsto> v), fresh = Suc (fresh h)\<rparr>)"

text \<open>Reading the fields of the object a reference points to.\<close>

definition deref :: "heap \<Rightarrow> ref \<Rightarrow> todo" where
  "deref h r = the (objs h r)"

subsection \<open>Numbers\<close>

text \<open>
  The distance between neighbouring doubles around a whole number \<open>n \<ge> 0\<close>: doubles carry
  53 binary digits, so the distance is 1 below \<open>2 ^ 53\<close> and doubles with each further
  binary digit of \<open>n\<close>.
\<close>

function ulp :: "int \<Rightarrow> int" where
  "ulp n = (if n < 2 ^ 53 then 1 else 2 * ulp (n div 2))"
  by pat_completeness auto
termination
  by (relation "measure nat") auto

declare ulp.simps [simp del]

text \<open>
  The double nearest to a whole number \<open>n \<ge> 0\<close>; of two doubles equally near, the one
  with the even last digit.
\<close>

definition round_even :: "int \<Rightarrow> int" where
  "round_even n =
     (let u = ulp n; q = n div u; r = n mod u
      in if 2 * r < u then q * u
         else if u < 2 * r then (q + 1) * u
         else if even q then q * u else (q + 1) * u)"

definition to_double :: "int \<Rightarrow> int" where
  "to_double y = (if 0 \<le> y then round_even y else - round_even (- y))"

text \<open>
  \<open>x + y\<close> on whole-number doubles. A sum beyond the largest double is \<open>Infinity\<close> in
  JavaScript and is not modelled; \<open>x + 1\<close> never is, since it rounds back to \<open>x\<close> long
  before.
\<close>

definition js_add :: "int \<Rightarrow> int \<Rightarrow> int" where
  "js_add x y = to_double (x + y)"

subsection \<open>\<open>createBulkTodos\<close>\<close>

text \<open>\<open>String(i)\<close> for a non-negative whole number: its decimal digits.\<close>

fun decimal :: "nat \<Rightarrow> string" where
  "decimal n =
     (if n < 10 then [char_of (48 + n)]
      else decimal (n div 10) @ [char_of (48 + n mod 10)])"

declare decimal.simps [simp del]

text \<open>The constant part of the template literal, two Hangul syllables, in UTF-8.\<close>

definition label :: string where
  "label = [char_of (0xED :: nat), char_of (0x95 :: nat), char_of (0xA0 :: nat), CHR '' '',
            char_of (0xEC :: nat), char_of (0x9D :: nat), char_of (0xBC :: nat), CHR '' '']"

definition bulk_todo :: "nat \<Rightarrow> todo" where
  "bulk_todo i = \<lparr>id' = int i, text' = label @ decimal i, checked = False\<rparr>"

text \<open>
  The loop \<open>for (let i = 0; i <= 25000; i++) array.push({...})\<close>, with the loop variable,
  the bound, the array built so far and the store as arguments. The loop variable stays
  below 25002, where \<open>i++\<close> is exact.
\<close>

function bulk_loop :: "nat \<Rightarrow> nat \<Rightarrow> ref list \<Rightarrow> heap \<Rightarrow> ref list \<times> heap" where
  "bulk_loop i n array h =
     (if i \<le> n then
        (let (r, h') = alloc (bulk_todo i) h
         in bulk_loop (Suc i) n (array @ [r]) h')
      else (array, h))"
  by pat_completeness auto
termination
  by (relation "measure (\<lambda>(i, n, array, h). Suc n - i)") auto

declare bulk_loop.simps [simp del]

definition createBulkTodos :: "heap \<Rightarrow> ref list \<times> heap" where
  "createBulkTodos h = bulk_loop 0 25000 [] h"

subsection \<open>The component state and its handlers\<close>

text \<open>
  \<open>todos\<close> is the state of \<open>useState\<close>, \<open>nextId\<close> the cell of \<open>useRef\<close>, \<open>mem\<close> the
  store the objects live in.
\<close>

record app =
  mem :: heap
  todos :: "ref list"
  nextId :: int

text \<open>Mounting: \<open>useState(createBulkTodos)\<close> and \<open>useRef(25001)\<close>.\<close>

definition App :: app where
  "App = (let (array, h) = createBulkTodos empty_heap
          in \<lparr>mem = h, todos = array, nextId = 25001\<rparr>)"

text \<open>
  \<open>onInsert\<close>: the object literal is evaluated first, the updater appends the reference
  to it (\<open>concat\<close> of one element that is not an array), then \<open>nextId.current += 1\<close>.
\<close>

definition onInsert :: "string \<Rightarrow> app \<Rightarrow> app" where
  "onInsert txt s =
     (let (todo, h) = alloc \<lparr>id' = nextId s, text' = txt, checked = False\<rparr> (mem s)
      in \<lparr>mem = h, todos = todos s @ [todo], nextId = js_add (nextId s) 1\<rparr>)"

text \<open>\<open>onRemove\<close>: \<open>todos.filter((todo) => todo.id !== id)\<close>.\<close>

definition onRemove :: "int \<Rightarrow> app \<Rightarrow> app" where
  "onRemove i s = s\<lparr>todos := filter (\<lambda>todo. id' (deref (mem s) todo) \<noteq> i) (todos s)\<rparr>"

text \<open>
  The callback of \<open>onToggle\<close>:
  \<open>todo.id === id ? { ...todo, checked: !todo.checked } : todo\<close>. The spread creates a
  new object; the other branch returns the reference it was given.
\<close>

definition toggle_todo :: "int \<Rightarrow> ref \<Rightarrow> heap \<Rightarrow> ref \<times> heap" where
  "toggle_todo i todo h =
     (if id' (deref h todo) = i
      then alloc ((deref h todo)\<lparr>checked := \<not> checked (deref h todo)\<rparr>) h
      else (todo, h))"

text \<open>\<open>Array.prototype.map\<close> with a callback that may create objects, left to right.\<close>

fun map_heap :: "(ref \<Rightarrow> heap \<Rightarrow> ref \<times> heap) \<Rightarrow> ref list \<Rightarrow> heap \<Rightarrow> ref list \<times> heap" where
  "map_heap f [] h = ([], h)"
| "map_heap f (r # rs) h =
     (let (r', h') = f r h; (rs', h'') = map_heap f rs h' in (r' # rs', h''))"

definition onToggle :: "int \<Rightarrow> app \<Rightarrow> app" where
  "onToggle i s =
     (let (array, h) = map_heap (toggle_todo i) (todos s) (mem s)
      in s\<lparr>mem := h, todos := array\<rparr>)"

subsection \<open>Runs of the component\<close>

datatype event = Insert string | Remove int | Toggle int

fun dispatch :: "app \<Rightarrow> event \<Rightarrow> app" where
  "dispatch s (Insert txt) = onInsert txt s"
| "dispatch s (Remove i) = onRemove i s"
| "dispatch s (Toggle i) = onToggle i s"

definition run :: "app \<Rightarrow> event list \<Rightarrow> app" where
  "run s es = foldl dispatch s es"

subsection \<open>Observations\<close>

text \<open>The collection as a reader of the array sees it: the fields of each element.\<close>

definition entries :: "app \<Rightarrow> todo list" where
  "entries s = map (deref (mem s)) (todos s)"

definition ids :: "app \<Rightarrow> int list" where
  "ids s = map id' (entries s)"

text \<open>
  Every element of the array points to an object that was created: its address is below
  the next free one and the store has an object there.
\<close>

definition heap_ok :: "app \<Rightarrow> bool" where
  "heap_ok s \<longleftrightarrow> (\<forall>r \<in> set (todos s). r < fresh (mem s) \<and> objs (mem s) r \<noteq> None)"

text \<open>
  What a reader sees of the callback of \<open>onToggle\<close> on one entry: \<open>checked\<close> negated
  when the id matches, the entry as it was otherwise.
\<close>

definition toggle_entry :: "int \<Rightarrow> todo \<Rightarrow> todo" where
  "toggle_entry i t = (if id' t = i then t\<lparr>checked := \<not> checked t\<rparr> else t)"

text \<open>A small state for evaluating the handlers: two objects, the second one checked.\<close>

definition demo :: app where
  "demo =
     \<lparr>mem = \<lparr>objs = [0 \<mapsto> \<lparr>id' = 7, text' = ''a'', checked = False\<rparr>,
                     1 \<mapsto> \<lparr>id' = 9, text' = ''b'', checked = True\<rparr>],
             fresh = 2\<rparr>,
      todos = [0, 1],
      nextId = 10\<rparr>"

subsection \<open>Counting along a run\<close>

text \<open>The number of \<open>Insert\<close> events of a run.\<close>

fun inserts :: "event list \<Rightarrow> nat" where
  "inserts [] = 0"
| "inserts (Insert txt # es) = Suc (inserts es)"
| "inserts (Remove i # es) = inserts es"
| "inserts (Toggle i # es) = inserts es"

text \<open>
  The number of \<open>Remove\<close> events of a run, started in \<open>s\<close>, whose id is in the collection
  at the moment the event arrives.
\<close>

fun removes_of_existing :: "app \<Rightarrow> event list \<Rightarrow> nat" where
  "removes_of_existing s [] = 0"
| "removes_of_existing s (Insert txt # es) = removes_of_existing (onInsert txt s) es"
| "removes_of_existing s (Remove i # es) =
     (if i \<in> set (ids s) then 1 else 0) + removes_of_existing (onRemove i s) es"
| "removes_of_existing s (Toggle i # es) = removes_of_existing (onToggle i s) es"

text \<open>
  \<open>k\<close> rounds of inserting an entry and removing it again, for a counter that stands at
  \<open>a\<close>: the counter goes up and the collection does not grow.
\<close>

fun churn :: "nat \<Rightarrow> nat \<Rightarrow> event list" where
  "churn a 0 = []"
| "churn a (Suc k) = Insert [] # Remove (int a) # churn (Suc a) k"

text \<open>
  The invariant of a run: the store is in order, the ids of the collection are pairwise
  distinct, and each is below the counter.
\<close>

definition ids_ok :: "app \<Rightarrow> bool" where
  "ids_ok s \<longleftrightarrow> heap_ok s \<and> distinct (ids s) \<and> (\<forall>i \<in> set (ids s). i < nextId s)"

text \<open>An empty collection with the counter at \<open>0\<close>; the component never starts there.\<close>

definition blank :: app where
  "blank = \<lparr>mem = empty_heap, todos = [], nextId = 0\<rparr>"

section \<open>Properties\<close>

subsection \<open>Adding one\<close>

lemma ulp_small: "n < 2 ^ 53 \<Longrightarrow> ulp n = 1"
  by (simp add: ulp.simps)

lemma ulp_top: "ulp 9007199254740992 = 2"
  by (simp add: ulp.simps [of "9007199254740992"] ulp.simps [of "4503599627370496"])

lemma round_even_exact: "n \<le> 2 ^ 53 \<Longrightarrow> round_even n = n"
proof (cases "n < 2 ^ 53")
  case True
  then show ?thesis by (simp add: round_even_def ulp_small)
next
  case False
  assume "n \<le> 2 ^ 53"
  with False have "n = 2 ^ 53" by simp
  then show ?thesis by (simp add: round_even_def ulp_top)
qed

lemma to_double_exact: "- (2 ^ 53) \<le> y \<Longrightarrow> y \<le> 2 ^ 53 \<Longrightarrow> to_double y = y"
  by (simp add: to_double_def round_even_exact)

text \<open>Adding one is exact from \<open>- (2 ^ 53)\<close> up to, not including, \<open>2 ^ 53\<close>.\<close>

lemma js_add_exact: "- (2 ^ 53) \<le> x \<Longrightarrow> x < 2 ^ 53 \<Longrightarrow> js_add x 1 = x + 1"
  by (simp add: js_add_def to_double_exact)

text \<open>At \<open>2 ^ 53\<close> it is not: \<open>2 ^ 53 + 1\<close> lies between two doubles and goes back down.\<close>

lemma js_add_stuck: "js_add 9007199254740992 1 = 9007199254740992"
  by (simp add: js_add_def to_double_def round_even_def ulp.simps [of "9007199254740993"]
      ulp.simps [of "4503599627370496"])

subsection \<open>The store under \<open>map\<close>\<close>

lemma alloc_simps:
  "fst (alloc v h) = fresh h"
  "objs (snd (alloc v h)) = (objs h)(fresh h \<mapsto> v)"
  "fresh (snd (alloc v h)) = Suc (fresh h)"
  by (simp_all add: alloc_def)

lemma toggle_todo_frame:
  assumes "toggle_todo i r h = (r', h')"
  shows "fresh h \<le> fresh h'" and "\<And>a. a < fresh h \<Longrightarrow> objs h' a = objs h a"
  using assms by (auto simp: toggle_todo_def alloc_def split: if_splits)

text \<open>
  Mapping the toggle callback over an array only adds objects: the next free address
  does not go down and no object that exists is changed.
\<close>

lemma map_heap_frame:
  "map_heap (toggle_todo i) rs h = (rs', h') \<Longrightarrow>
     fresh h \<le> fresh h' \<and> (\<forall>a < fresh h. objs h' a = objs h a)"
proof (induction rs arbitrary: h rs' h')
  case Nil
  then show ?case by simp
next
  case (Cons r rs)
  obtain r1 h1 where t: "toggle_todo i r h = (r1, h1)" by (cases "toggle_todo i r h")
  obtain rs2 h2 where m: "map_heap (toggle_todo i) rs h1 = (rs2, h2)"
    by (cases "map_heap (toggle_todo i) rs h1")
  from Cons.prems t m have e: "h' = h2" by simp
  from Cons.IH [OF m] toggle_todo_frame [OF t] e show ?case by auto
qed

lemma map_heap_toggle:
  "\<forall>r \<in> set rs. r < fresh h \<and> objs h r \<noteq> None \<Longrightarrow>
   map_heap (toggle_todo i) rs h = (rs', h') \<Longrightarrow>
     (\<forall>r \<in> set rs'. r < fresh h' \<and> objs h' r \<noteq> None) \<and>
     map (deref h') rs' = map (toggle_entry i) (map (deref h) rs) \<and>
     list_all2 (\<lambda>r r'. if id' (deref h r) = i then fresh h \<le> r' else r' = r) rs rs'"
proof (induction rs arbitrary: h rs' h')
  case Nil
  then show ?case by simp
next
  case (Cons r rs)
  obtain r1 h1 where t: "toggle_todo i r h = (r1, h1)" by (cases "toggle_todo i r h")
  obtain rs2 h2 where m: "map_heap (toggle_todo i) rs h1 = (rs2, h2)"
    by (cases "map_heap (toggle_todo i) rs h1")
  from Cons.prems t m have e: "h' = h2" "rs' = r1 # rs2" by simp_all
  note f1 = toggle_todo_frame [OF t]
  note f2 = map_heap_frame [OF m]
  have pre: "\<forall>a \<in> set rs. a < fresh h1 \<and> objs h1 a \<noteq> None"
    using Cons.prems(1) f1 by (metis list.set_intros(2) order_less_le_trans)
  note IH = Cons.IH [OF pre m]
  have same: "\<And>a. a \<in> set (r # rs) \<Longrightarrow> deref h1 a = deref h a"
    using Cons.prems(1) f1(2) by (auto simp: deref_def)
  have r1: "r1 < fresh h1 \<and> objs h1 r1 \<noteq> None \<and> deref h1 r1 = toggle_entry i (deref h r)
      \<and> (if id' (deref h r) = i then fresh h \<le> r1 else r1 = r)"
    using t Cons.prems(1) by (auto simp: toggle_todo_def alloc_def toggle_entry_def deref_def split: if_splits)
  have r1': "r1 < fresh h2 \<and> objs h2 r1 \<noteq> None \<and> deref h2 r1 = toggle_entry i (deref h r)"
    using r1 f2 by (auto simp: deref_def)
  have tl: "map (deref h2) rs2 = map (toggle_entry i) (map (deref h) rs)"
    using IH same by simp
  have l2: "list_all2 (\<lambda>r r'. if id' (deref h r) = i then fresh h \<le> r' else r' = r) rs rs2"
  proof -
    from IH have "list_all2 (\<lambda>r r'. if id' (deref h1 r) = i then fresh h1 \<le> r' else r' = r) rs rs2"
      by simp
    then show ?thesis
    proof (rule list.rel_mono_strong)
      fix a b assume "a \<in> set rs" "b \<in> set rs2"
        and "if id' (deref h1 a) = i then fresh h1 \<le> b else b = a"
      then show "if id' (deref h a) = i then fresh h \<le> b else b = a"
        using same [of a] f1(1) by (auto split: if_splits)
    qed
  qed
  show ?case using e r1 r1' tl l2 IH by simp
qed


subsection \<open>The seed loop\<close>

text \<open>
  With \<open>d\<close> rounds left, the loop appends \<open>d\<close> new references, in order, to objects
  \<open>bulk_todo i\<close>, \<open>bulk_todo (i + 1)\<close>, ... and touches nothing else.
\<close>

lemma bulk_loop_spec:
  "i + d = Suc n \<Longrightarrow> bulk_loop i n array h = (array', h') \<Longrightarrow>
     array' = array @ [fresh h ..< fresh h + d] \<and>
     fresh h' = fresh h + d \<and>
     (\<forall>a < fresh h. objs h' a = objs h a) \<and>
     (\<forall>k < d. objs h' (fresh h + k) = Some (bulk_todo (i + k)))"
proof (induction d arbitrary: i array h)
  case 0
  then show ?case by (simp add: bulk_loop.simps [of "Suc n"])
next
  case (Suc d)
  define h1 where "h1 = \<lparr>objs = (objs h)(fresh h \<mapsto> bulk_todo i), fresh = Suc (fresh h)\<rparr>"
  from Suc.prems(1) have le: "i \<le> n" and d: "Suc i + d = Suc n" by simp_all
  have step: "bulk_loop (Suc i) n (array @ [fresh h]) h1 = (array', h')"
    using Suc.prems(2) le by (simp add: bulk_loop.simps [of i] alloc_def h1_def)
  have h1: "fresh h1 = Suc (fresh h)" "objs h1 = (objs h)(fresh h \<mapsto> bulk_todo i)"
    by (simp_all add: h1_def)
  note IH = Suc.IH [OF d step, unfolded h1]
  have u: "[fresh h ..< fresh h + Suc d] = fresh h # [Suc (fresh h) ..< Suc (fresh h) + d]"
    by (simp add: upt_conv_Cons)
  have c1: "array' = array @ [fresh h ..< fresh h + Suc d]"
    using IH unfolding u by simp
  have c2: "fresh h' = fresh h + Suc d"
    using IH by simp
  have c3: "\<forall>a < fresh h. objs h' a = objs h a"
    using IH by simp
  have c4: "\<forall>k < Suc d. objs h' (fresh h + k) = Some (bulk_todo (i + k))"
  proof (intro allI impI)
    fix k assume k: "k < Suc d"
    show "objs h' (fresh h + k) = Some (bulk_todo (i + k))"
    proof (cases k)
      case 0
      then show ?thesis using IH by simp
    next
      case (Suc j)
      with k have "j < d" by simp
      with IH have "objs h' (Suc (fresh h) + j) = Some (bulk_todo (Suc i + j))" by blast
      then show ?thesis using Suc by simp
    qed
  qed
  from c1 c2 c3 c4 show ?case by blast
qed

lemma App_todos: "todos App = [0 ..< 25001]"
  and App_fresh: "fresh (mem App) = 25001"
  and App_objs: "a < 25001 \<Longrightarrow> objs (mem App) a = Some (bulk_todo a)"
  and App_nextId: "nextId App = 25001"
proof -
  obtain array h where b: "bulk_loop 0 25000 [] empty_heap = (array, h)"
    by (cases "bulk_loop 0 25000 [] empty_heap")
  have A: "App = \<lparr>mem = h, todos = array, nextId = 25001\<rparr>"
    by (simp add: App_def createBulkTodos_def b)
  from bulk_loop_spec [of 0 25001, OF _ b]
  have s: "array = [0 ..< 25001]" "fresh h = 25001"
    "\<forall>k < 25001. objs h k = Some (bulk_todo k)"
    by (simp_all add: empty_heap_def)
  show "todos App = [0 ..< 25001]" "fresh (mem App) = 25001" "nextId App = 25001"
    by (simp_all add: A s)
  show "a < 25001 \<Longrightarrow> objs (mem App) a = Some (bulk_todo a)"
    by (simp add: A s)
qed

lemma entries_App: "entries App = map bulk_todo [0 ..< 25001]"
  by (simp add: entries_def App_todos deref_def App_objs)


subsection \<open>The handlers, step by step\<close>

lemma onToggle_unfold:
  assumes "map_heap (toggle_todo i) (todos s) (mem s) = (array, h)"
  shows "mem (onToggle i s) = h" "todos (onToggle i s) = array" "nextId (onToggle i s) = nextId s"
  using assms by (simp_all add: onToggle_def)

lemma heap_ok_onToggle: "heap_ok s \<Longrightarrow> heap_ok (onToggle i s)"
proof -
  assume ok: "heap_ok s"
  obtain array h where m: "map_heap (toggle_todo i) (todos s) (mem s) = (array, h)"
    by (cases "map_heap (toggle_todo i) (todos s) (mem s)")
  from ok have pre: "\<forall>r \<in> set (todos s). r < fresh (mem s) \<and> objs (mem s) r \<noteq> None"
    by (simp add: heap_ok_def)
  from map_heap_toggle [OF pre m] show ?thesis
    by (simp add: heap_ok_def onToggle_unfold [OF m])
qed

lemma entries_onToggle:
  "heap_ok s \<Longrightarrow> entries (onToggle i s) = map (toggle_entry i) (entries s)"
proof -
  assume ok: "heap_ok s"
  obtain array h where m: "map_heap (toggle_todo i) (todos s) (mem s) = (array, h)"
    by (cases "map_heap (toggle_todo i) (todos s) (mem s)")
  from ok have pre: "\<forall>r \<in> set (todos s). r < fresh (mem s) \<and> objs (mem s) r \<noteq> None"
    by (simp add: heap_ok_def)
  from map_heap_toggle [OF pre m] show ?thesis
    by (simp add: entries_def onToggle_unfold [OF m])
qed

lemma refs_onToggle:
  "heap_ok s \<Longrightarrow>
     list_all2 (\<lambda>r r'. if id' (deref (mem s) r) = i then fresh (mem s) \<le> r' else r' = r)
       (todos s) (todos (onToggle i s))"
proof -
  assume ok: "heap_ok s"
  obtain array h where m: "map_heap (toggle_todo i) (todos s) (mem s) = (array, h)"
    by (cases "map_heap (toggle_todo i) (todos s) (mem s)")
  from ok have pre: "\<forall>r \<in> set (todos s). r < fresh (mem s) \<and> objs (mem s) r \<noteq> None"
    by (simp add: heap_ok_def)
  from map_heap_toggle [OF pre m] show ?thesis
    by (simp add: onToggle_unfold [OF m])
qed

lemma objs_onToggle:
  "a < fresh (mem s) \<Longrightarrow> objs (mem (onToggle i s)) a = objs (mem s) a"
proof -
  assume a: "a < fresh (mem s)"
  obtain array h where m: "map_heap (toggle_todo i) (todos s) (mem s) = (array, h)"
    by (cases "map_heap (toggle_todo i) (todos s) (mem s)")
  from map_heap_frame [OF m] a show ?thesis
    by (simp add: onToggle_unfold [OF m])
qed

lemma onInsert_simps:
  "mem (onInsert txt s) =
     \<lparr>objs = (objs (mem s))(fresh (mem s) \<mapsto> \<lparr>id' = nextId s, text' = txt, checked = False\<rparr>),
      fresh = Suc (fresh (mem s))\<rparr>"
  "todos (onInsert txt s) = todos s @ [fresh (mem s)]"
  "nextId (onInsert txt s) = js_add (nextId s) 1"
  by (simp_all add: onInsert_def alloc_def)

lemma heap_ok_onInsert: "heap_ok s \<Longrightarrow> heap_ok (onInsert txt s)"
  by (auto simp: heap_ok_def onInsert_simps)

lemma entries_onInsert:
  "heap_ok s \<Longrightarrow>
     entries (onInsert txt s) = entries s @ [\<lparr>id' = nextId s, text' = txt, checked = False\<rparr>]"
  by (auto simp: heap_ok_def entries_def onInsert_simps deref_def)

lemma onRemove_simps:
  "mem (onRemove i s) = mem s"
  "todos (onRemove i s) = filter (\<lambda>todo. id' (deref (mem s) todo) \<noteq> i) (todos s)"
  "nextId (onRemove i s) = nextId s"
  by (simp_all add: onRemove_def)

lemma heap_ok_onRemove: "heap_ok s \<Longrightarrow> heap_ok (onRemove i s)"
  by (simp add: heap_ok_def onRemove_simps)

lemma entries_onRemove:
  "entries (onRemove i s) = filter (\<lambda>t. id' t \<noteq> i) (entries s)"
  by (simp add: entries_def onRemove_simps filter_map comp_def)

lemma toggle_entry_absent: "i \<notin> id' ` set ts \<Longrightarrow> map (toggle_entry i) ts = ts"
  by (induction ts) (auto simp: toggle_entry_def)

lemma toggle_entry_twice: "toggle_entry i (toggle_entry i t) = t"
  by (simp add: toggle_entry_def)

lemma filter_absent: "i \<notin> id' ` set ts \<Longrightarrow> filter (\<lambda>t. id' t \<noteq> i) ts = ts"
  by (induction ts) auto

subsection \<open>The small state\<close>

lemma demo_simps:
  "todos demo = [0, 1]" "fresh (mem demo) = 2" "nextId demo = 10"
  "objs (mem demo) = [0 \<mapsto> \<lparr>id' = 7, text' = ''a'', checked = False\<rparr>,
                      1 \<mapsto> \<lparr>id' = 9, text' = ''b'', checked = True\<rparr>]"
  by (simp_all add: demo_def)

lemma heap_ok_demo: "heap_ok demo"
  by (simp add: heap_ok_def demo_simps)

lemma entries_demo:
  "entries demo = [\<lparr>id' = 7, text' = ''a'', checked = False\<rparr>, \<lparr>id' = 9, text' = ''b'', checked = True\<rparr>]"
  by (simp add: entries_def deref_def demo_simps)

text \<open>
  \<open>onToggle\<close> evaluated on the small state: the entry with id 9 is a new object at
  address 2, and the object at address 1 is as it was.
\<close>

lemma onToggle_demo:
  "todos (onToggle 9 demo) = [0, 2] \<and>
   objs (mem (onToggle 9 demo)) 2 = Some \<lparr>id' = 9, text' = ''b'', checked = False\<rparr> \<and>
   objs (mem (onToggle 9 demo)) 1 = Some \<lparr>id' = 9, text' = ''b'', checked = True\<rparr> \<and>
   fresh (mem (onToggle 9 demo)) = 3"
  by (simp add: onToggle_def toggle_todo_def alloc_def deref_def demo_def)

section \<open>The handlers\<close>

text \<open>
  Claim C1. For every collection and every id, \<open>onToggle\<close> yields a collection in which
  each entry with that id has \<open>checked\<close> negated and its id and text as before, and every
  other entry as before; when no entry has the id, the collection reads as it did.
\<close>

theorem onToggle_flips_checked:
  assumes "heap_ok s"
  shows "entries (onToggle i s) = map (toggle_entry i) (entries s) \<and>
         map id' (entries (onToggle i s)) = map id' (entries s) \<and>
         map text' (entries (onToggle i s)) = map text' (entries s) \<and>
         (i \<notin> set (ids s) \<longrightarrow> entries (onToggle i s) = entries s)"
proof -
  have e: "entries (onToggle i s) = map (toggle_entry i) (entries s)"
    using assms by (rule entries_onToggle)
  have "id' \<circ> toggle_entry i = id'" "text' \<circ> toggle_entry i = text'"
    by (auto simp: toggle_entry_def fun_eq_iff)
  then have f: "map id' (entries (onToggle i s)) = map id' (entries s)"
    "map text' (entries (onToggle i s)) = map text' (entries s)"
    by (simp_all add: e)
  have "i \<notin> set (ids s) \<longrightarrow> entries (onToggle i s) = entries s"
    by (simp add: e ids_def toggle_entry_absent)
  with e f show ?thesis by blast
qed

theorem onToggle_flips_checked_witness:
  "heap_ok demo \<and>
   entries demo = [\<lparr>id' = 7, text' = ''a'', checked = False\<rparr>, \<lparr>id' = 9, text' = ''b'', checked = True\<rparr>] \<and>
   entries (onToggle 9 demo) = [\<lparr>id' = 7, text' = ''a'', checked = False\<rparr>, \<lparr>id' = 9, text' = ''b'', checked = False\<rparr>] \<and>
   8 \<notin> set (ids demo) \<and> entries (onToggle 8 demo) = entries demo"
  using onToggle_flips_checked [OF heap_ok_demo, of 9] onToggle_flips_checked [OF heap_ok_demo, of 8]
  by (simp add: heap_ok_demo entries_demo ids_def toggle_entry_def)

text \<open>
  Claim C2. \<open>onToggle\<close> leaves at every position whose entry has another id the very
  reference that was there, and changes no object of the old collection; \<open>onInsert\<close>
  yields the references of the old collection, in order, followed by one reference to a
  new object, and changes no object of the old collection.
\<close>

theorem unaffected_entries_shared:
  assumes "heap_ok s"
  shows "length (todos (onToggle i s)) = length (todos s) \<and>
         (\<forall>k < length (todos s).
            id' (entries s ! k) \<noteq> i \<longrightarrow> todos (onToggle i s) ! k = todos s ! k) \<and>
         (\<forall>r \<in> set (todos s). objs (mem (onToggle i s)) r = objs (mem s) r) \<and>
         todos (onInsert txt s) = todos s @ [fresh (mem s)] \<and>
         fresh (mem s) \<notin> set (todos s) \<and>
         (\<forall>r \<in> set (todos s). objs (mem (onInsert txt s)) r = objs (mem s) r)"
proof -
  from assms have below: "\<forall>r \<in> set (todos s). r < fresh (mem s)"
    by (simp add: heap_ok_def)
  note l = refs_onToggle [OF assms, of i]
  have len: "length (todos (onToggle i s)) = length (todos s)"
    using l by (simp add: list_all2_lengthD)
  have same: "\<forall>k < length (todos s).
      id' (entries s ! k) \<noteq> i \<longrightarrow> todos (onToggle i s) ! k = todos s ! k"
  proof (intro allI impI)
    fix k assume k: "k < length (todos s)" and n: "id' (entries s ! k) \<noteq> i"
    from l k have "if id' (deref (mem s) (todos s ! k)) = i
        then fresh (mem s) \<le> todos (onToggle i s) ! k
        else todos (onToggle i s) ! k = todos s ! k"
      by (rule list_all2_nthD)
    with k n show "todos (onToggle i s) ! k = todos s ! k"
      by (simp add: entries_def)
  qed
  have kept: "\<forall>r \<in> set (todos s). objs (mem (onToggle i s)) r = objs (mem s) r"
    using below by (simp add: objs_onToggle)
  have ins: "\<forall>r \<in> set (todos s). objs (mem (onInsert txt s)) r = objs (mem s) r"
    using below by (auto simp: onInsert_simps)
  have new: "fresh (mem s) \<notin> set (todos s)"
    using below by auto
  from len same kept ins new show ?thesis
    by (simp add: onInsert_simps)
qed

theorem unaffected_entries_shared_witness:
  "heap_ok demo \<and> todos demo = [0, 1] \<and>
   id' (entries demo ! 0) \<noteq> 9 \<and> todos (onToggle 9 demo) ! 0 = 0 \<and>
   objs (mem (onToggle 9 demo)) 0 = Some \<lparr>id' = 7, text' = ''a'', checked = False\<rparr> \<and>
   todos (onInsert ''c'' demo) = [0, 1, 2] \<and>
   objs (mem (onInsert ''c'' demo)) 0 = objs (mem demo) 0 \<and>
   objs (mem (onInsert ''c'' demo)) 1 = objs (mem demo) 1"
  using unaffected_entries_shared [OF heap_ok_demo, of 9 "''c''"]
  by (simp add: heap_ok_demo entries_demo demo_simps)

text \<open>
  The other positions of \<open>onToggle\<close>: an entry with the given id is replaced by a
  reference that the old collection does not hold.
\<close>

lemma toggled_entries_copied:
  assumes "heap_ok s" and "k < length (todos s)" and "id' (entries s ! k) = i"
  shows "todos (onToggle i s) ! k \<notin> set (todos s)"
proof -
  from assms(1) have below: "\<forall>r \<in> set (todos s). r < fresh (mem s)"
    by (simp add: heap_ok_def)
  from refs_onToggle [OF assms(1), of i] assms(2)
  have "if id' (deref (mem s) (todos s ! k)) = i
      then fresh (mem s) \<le> todos (onToggle i s) ! k
      else todos (onToggle i s) ! k = todos s ! k"
    by (rule list_all2_nthD)
  with assms(2,3) have "fresh (mem s) \<le> todos (onToggle i s) ! k"
    by (simp add: entries_def)
  with below show ?thesis by auto
qed

text \<open>
  With the counter at \<open>2 ^ 53\<close>, \<open>onInsert\<close> leaves the counter where it is.
\<close>

theorem onInsert_counter_counterexample:
  "heap_ok (demo\<lparr>nextId := 9007199254740992\<rparr>) \<and>
   nextId (onInsert ''c'' (demo\<lparr>nextId := 9007199254740992\<rparr>)) = 9007199254740992 \<and>
   nextId (onInsert ''c'' (demo\<lparr>nextId := 9007199254740992\<rparr>)) \<noteq>
     nextId (demo\<lparr>nextId := 9007199254740992\<rparr>) + 1"
  by (simp add: onInsert_simps js_add_stuck heap_ok_def demo_def)

text \<open>
  Claim C3, with the range of the counter. \<open>onInsert\<close> appends exactly one entry, with
  the counter's value as id, the given text and \<open>checked\<close> false, after the entries that
  were there; and it adds one to the counter when the counter is at least \<open>- (2 ^ 53)\<close>
  and below \<open>2 ^ 53\<close>.
\<close>

theorem onInsert_appends:
  assumes "heap_ok s"
  shows "entries (onInsert txt s) =
           entries s @ [\<lparr>id' = nextId s, text' = txt, checked = False\<rparr>] \<and>
         (- (2 ^ 53) \<le> nextId s \<and> nextId s < 2 ^ 53 \<longrightarrow>
            nextId (onInsert txt s) = nextId s + 1)"
  using assms by (simp add: entries_onInsert onInsert_simps js_add_exact)

theorem onInsert_appends_witness:
  "heap_ok demo \<and> - (2 ^ 53) \<le> nextId demo \<and> nextId demo < 2 ^ 53 \<and>
   entries (onInsert ''c'' demo) =
     [\<lparr>id' = 7, text' = ''a'', checked = False\<rparr>, \<lparr>id' = 9, text' = ''b'', checked = True\<rparr>,
      \<lparr>id' = 10, text' = ''c'', checked = False\<rparr>] \<and>
   nextId (onInsert ''c'' demo) = 11"
  using onInsert_appends [OF heap_ok_demo, of "''c''"]
  by (simp add: heap_ok_demo entries_demo demo_simps)

text \<open>
  Claim C4. \<open>onRemove\<close> keeps exactly the entries with another id, in their order; when
  no entry has the id, the collection reads after \<open>onRemove\<close>, and after \<open>onToggle\<close>, as
  it did before. Both handlers are total functions of the state: there is no error to
  return.
\<close>

theorem onRemove_filters:
  assumes "heap_ok s"
  shows "entries (onRemove i s) = filter (\<lambda>t. id' t \<noteq> i) (entries s) \<and>
         (i \<notin> set (ids s) \<longrightarrow>
            entries (onRemove i s) = entries s \<and> entries (onToggle i s) = entries s)"
  using assms
  by (simp add: entries_onRemove entries_onToggle ids_def filter_absent toggle_entry_absent)

theorem onRemove_filters_witness:
  "heap_ok demo \<and>
   entries (onRemove 7 demo) = [\<lparr>id' = 9, text' = ''b'', checked = True\<rparr>] \<and>
   8 \<notin> set (ids demo) \<and>
   entries (onRemove 8 demo) = entries demo \<and> entries (onToggle 8 demo) = entries demo"
  using onRemove_filters [OF heap_ok_demo, of 7] onRemove_filters [OF heap_ok_demo, of 8]
  by (simp add: heap_ok_demo entries_demo ids_def)

text \<open>
  Claim C5. \<open>onToggle\<close> with the same id twice gives back a collection that reads as
  the one before both calls (for an id in the collection and for any other).
\<close>

theorem onToggle_twice:
  assumes "heap_ok s"
  shows "entries (onToggle i (onToggle i s)) = entries s"
proof -
  have "heap_ok (onToggle i s)"
    using assms by (rule heap_ok_onToggle)
  then have "entries (onToggle i (onToggle i s)) = map (toggle_entry i) (entries (onToggle i s))"
    by (rule entries_onToggle)
  also have "\<dots> = map (toggle_entry i) (map (toggle_entry i) (entries s))"
    using assms by (simp add: entries_onToggle)
  also have "\<dots> = entries s"
    by (simp add: comp_def toggle_entry_twice)
  finally show ?thesis .
qed

theorem onToggle_twice_witness:
  "heap_ok demo \<and> 9 \<in> set (ids demo) \<and>
   entries (onToggle 9 (onToggle 9 demo)) =
     [\<lparr>id' = 7, text' = ''a'', checked = False\<rparr>, \<lparr>id' = 9, text' = ''b'', checked = True\<rparr>]"
  using onToggle_twice [OF heap_ok_demo, of 9]
  by (simp add: heap_ok_demo entries_demo ids_def)

section \<open>Runs from the seeded state\<close>

subsection \<open>The invariant\<close>

lemma ids_App: "ids App = map int [0 ..< 25001]"
  by (simp add: ids_def entries_App bulk_todo_def comp_def)

lemma heap_ok_App: "heap_ok App"
  by (simp add: heap_ok_def App_todos App_fresh App_objs)

lemma ids_ok_App: "ids_ok App"
  by (auto simp: ids_ok_def heap_ok_App ids_App App_nextId distinct_map inj_on_def)

lemma ids_onInsert: "heap_ok s \<Longrightarrow> ids (onInsert txt s) = ids s @ [nextId s]"
  by (simp add: ids_def entries_onInsert)

lemma ids_onRemove: "ids (onRemove i s) = filter (\<lambda>j. j \<noteq> i) (ids s)"
  by (simp add: ids_def entries_onRemove filter_map comp_def)

lemma ids_onToggle: "heap_ok s \<Longrightarrow> ids (onToggle i s) = ids s"
proof -
  assume "heap_ok s"
  moreover have "id' \<circ> toggle_entry i = id'"
    by (auto simp: toggle_entry_def fun_eq_iff)
  ultimately show ?thesis
    by (simp add: ids_def entries_onToggle)
qed

lemma nextId_onToggle: "nextId (onToggle i s) = nextId s"
  by (simp add: onToggle_def split: prod.splits)

lemma ids_ok_onInsert:
  "ids_ok s \<Longrightarrow> - (2 ^ 53) \<le> nextId s \<Longrightarrow> nextId s < 2 ^ 53 \<Longrightarrow> ids_ok (onInsert str s)"
  unfolding ids_ok_def
  by (auto simp: heap_ok_onInsert ids_onInsert onInsert_simps js_add_exact)

lemma ids_ok_onRemove: "ids_ok s \<Longrightarrow> ids_ok (onRemove i s)"
  unfolding ids_ok_def
  by (auto simp: heap_ok_onRemove ids_onRemove onRemove_simps)

lemma ids_ok_onToggle: "ids_ok s \<Longrightarrow> ids_ok (onToggle i s)"
  unfolding ids_ok_def
  by (auto simp: heap_ok_onToggle ids_onToggle nextId_onToggle)

lemma run_Nil: "run s [] = s"
  and run_Cons: "run s (e # es) = run (dispatch s e) es"
  and run_append: "run s (es @ es') = run (run s es) es'"
  by (simp_all add: run_def)

lemma inserts_append: "inserts (es @ es') = inserts es + inserts es'"
  by (induction es rule: inserts.induct) simp_all

lemma removes_of_existing_append:
  "removes_of_existing s (es @ es') =
     removes_of_existing s es + removes_of_existing (run s es) es'"
  by (induction s es rule: removes_of_existing.induct) (simp_all add: run_Nil run_Cons)

text \<open>
  The counter of a run never goes down and never passes \<open>2 ^ 53\<close>: there it stays.
\<close>

lemma counter_dispatch:
  assumes "0 \<le> nextId s" and "nextId s \<le> 2 ^ 53"
  shows "nextId s \<le> nextId (dispatch s e) \<and> nextId (dispatch s e) \<le> 2 ^ 53"
proof (cases e)
  case (Insert str)
  show ?thesis
  proof (cases "nextId s < 2 ^ 53")
    case True
    with assms Insert show ?thesis
      by (simp add: onInsert_simps js_add_exact)
  next
    case False
    with assms have "nextId s = 9007199254740992" by simp
    with Insert show ?thesis
      by (simp add: onInsert_simps js_add_stuck)
  qed
next
  case (Remove i)
  with assms show ?thesis by (simp add: onRemove_simps)
next
  case (Toggle i)
  with assms show ?thesis by (simp add: nextId_onToggle)
qed

lemma counter_run:
  "0 \<le> nextId s \<Longrightarrow> nextId s \<le> 2 ^ 53 \<Longrightarrow>
     nextId s \<le> nextId (run s es) \<and> nextId (run s es) \<le> 2 ^ 53"
proof (induction es arbitrary: s)
  case Nil
  then show ?case by (simp add: run_Nil)
next
  case (Cons e es)
  from counter_dispatch [OF Cons.prems, of e]
  have d: "nextId s \<le> nextId (dispatch s e)" "nextId (dispatch s e) \<le> 2 ^ 53"
    by simp_all
  from Cons.prems(1) d(1) have "0 \<le> nextId (dispatch s e)" by simp
  from Cons.IH [OF this d(2)] d(1) show ?case
    by (simp add: run_Cons)
qed

text \<open>
  So every value the counter takes in a run of the component is a whole number from 25001
  to \<open>2 ^ 53\<close>, all of them doubles.
\<close>

lemma counter_run_App: "25001 \<le> nextId (run App es) \<and> nextId (run App es) \<le> 2 ^ 53"
  using counter_run [of App es] by (simp add: App_nextId)

lemma length_remove_distinct:
  "distinct js \<Longrightarrow> i \<in> set js \<Longrightarrow> Suc (length (filter (\<lambda>j. j \<noteq> i) js)) = length js"
proof (induction js)
  case Nil
  then show ?case by simp
next
  case (Cons j js)
  show ?case
  proof (cases "j = i")
    case True
    with Cons.prems have "i \<notin> set js" by simp
    then have "filter (\<lambda>j. j \<noteq> i) js = js" by (induction js) auto
    with True show ?thesis by simp
  next
    case False
    with Cons show ?thesis by simp
  qed
qed

lemma length_remove_absent: "i \<notin> set js \<Longrightarrow> filter (\<lambda>j. j \<noteq> i) js = js"
  by (induction js) auto

lemma length_ids: "length (ids s) = length (entries s)"
  by (simp add: ids_def)

text \<open>
  A run whose inserts do not take the counter beyond \<open>2 ^ 53\<close>: the invariant holds at
  its end, the counter has counted the inserts, and the length has gone up with each
  insert and down with each remove of an id that was there.
\<close>

lemma run_exact:
  "ids_ok s \<Longrightarrow> - (2 ^ 53) \<le> nextId s \<Longrightarrow> nextId s + int (inserts es) \<le> 2 ^ 53 \<Longrightarrow>
     ids_ok (run s es) \<and>
     nextId (run s es) = nextId s + int (inserts es) \<and>
     length (entries (run s es)) + removes_of_existing s es = length (entries s) + inserts es"
proof (induction es arbitrary: s)
  case Nil
  then show ?case by (simp add: run_Nil)
next
  case (Cons e es)
  note ok = Cons.prems(1) and lo = Cons.prems(2) and hi = Cons.prems(3)
  from ok have h: "heap_ok s" and d: "distinct (ids s)" by (simp_all add: ids_ok_def)
  show ?case
  proof (cases e)
    case (Insert str)
    from hi Insert have below: "nextId s < 2 ^ 53" by simp
    have n: "nextId (onInsert str s) = nextId s + 1"
      using lo below by (simp add: onInsert_simps js_add_exact)
    have ok': "ids_ok (onInsert str s)"
      using ok lo below by (rule ids_ok_onInsert)
    have lo': "- (2 ^ 53) \<le> nextId (onInsert str s)"
      using lo n by simp
    have hi': "nextId (onInsert str s) + int (inserts es) \<le> 2 ^ 53"
      using hi Insert n by simp
    from Cons.IH [OF ok' lo' hi'] Insert h n show ?thesis
      by (simp add: run_Cons entries_onInsert)
  next
    case (Remove i)
    have ok': "ids_ok (onRemove i s)"
      using ok by (rule ids_ok_onRemove)
    have lo': "- (2 ^ 53) \<le> nextId (onRemove i s)"
      using lo by (simp add: onRemove_simps)
    have hi': "nextId (onRemove i s) + int (inserts es) \<le> 2 ^ 53"
      using hi Remove by (simp add: onRemove_simps)
    note IH = Cons.IH [OF ok' lo' hi']
    show ?thesis
    proof (cases "i \<in> set (ids s)")
      case True
      from length_remove_distinct [OF d True]
      have "Suc (length (entries (onRemove i s))) = length (entries s)"
        by (simp add: ids_onRemove [symmetric] length_ids)
      with IH Remove True show ?thesis
        by (simp add: run_Cons onRemove_simps)
    next
      case False
      then have "ids (onRemove i s) = ids s"
        by (simp add: ids_onRemove length_remove_absent)
      then have "length (entries (onRemove i s)) = length (entries s)"
        by (metis length_ids)
      with IH Remove False show ?thesis
        by (simp add: run_Cons onRemove_simps)
    qed
  next
    case (Toggle i)
    have ok': "ids_ok (onToggle i s)"
      using ok by (rule ids_ok_onToggle)
    have lo': "- (2 ^ 53) \<le> nextId (onToggle i s)"
      using lo by (simp add: nextId_onToggle)
    have hi': "nextId (onToggle i s) + int (inserts es) \<le> 2 ^ 53"
      using hi Toggle by (simp add: nextId_onToggle)
    from Cons.IH [OF ok' lo' hi'] Toggle h show ?thesis
      by (simp add: run_Cons entries_onToggle nextId_onToggle)
  qed
qed

lemma run_App_exact:
  assumes "25001 + int (inserts es) \<le> 2 ^ 53"
  shows "ids_ok (run App es)"
    and "nextId (run App es) = 25001 + int (inserts es)"
    and "length (entries (run App es)) + removes_of_existing App es = 25001 + inserts es"
  using run_exact [OF ids_ok_App, of es] assms
  by (simp_all add: App_nextId entries_App)

lemma seed_ids: "i \<in> id' ` set (entries App) \<longleftrightarrow> 0 \<le> i \<and> i < 25001"
proof -
  have "id' ` set (entries App) = set (ids App)" by (simp add: ids_def)
  also have "\<dots> = int ` {0 ..< 25001}" by (simp add: ids_App)
  finally show ?thesis
    by (auto simp: image_iff intro: bexI [of _ "nat i"])
qed

subsection \<open>The seed\<close>

text \<open>
  Claim C10. The seeded collection has exactly 25001 entries, with ids 0 to 25000 in
  increasing order and \<open>checked\<close> false everywhere, and the counter starts at 25001.
\<close>

theorem seed_collection:
  "length (entries App) = 25001 \<and>
   ids App = map int [0 ..< 25001] \<and>
   sorted_wrt (<) (ids App) \<and>
   map checked (entries App) = replicate 25001 False \<and>
   nextId App = 25001"
proof -
  have "map checked (entries App) = map (\<lambda>i. False) [0 ..< 25001]"
    by (simp add: entries_App bulk_todo_def comp_def)
  also have "\<dots> = replicate 25001 False"
    by (simp add: map_replicate_const)
  finally have c: "map checked (entries App) = replicate 25001 False" .
  have s: "sorted_wrt (<) (ids App)"
    by (simp add: ids_App sorted_wrt_map)
  from c s show ?thesis
    by (simp add: entries_App ids_App App_nextId)
qed

subsection \<open>Length\<close>

text \<open>
  After one insert into the seeded collection the length is 25002, not the number of
  inserts minus the number of effective removes, which is 1.
\<close>

theorem length_counts_inserts_counterexample:
  "int (length (entries (run App [Insert ''a'']))) \<noteq>
     int (inserts [Insert ''a'']) - int (removes_of_existing App [Insert ''a''])"
  using run_App_exact(3) [of "[Insert ''a'']"]
  by simp

text \<open>
  Claim C6, with the seed counted and the counter in its exact range. After every run
  from the seeded state with at most \<open>2 ^ 53 - 25001\<close> inserts, the length of the
  collection is 25001, plus the number of inserts, minus the number of removes whose id
  was in the collection when the remove arrived.
\<close>

theorem length_counts_from_seed:
  assumes "25001 + int (inserts es) \<le> 2 ^ 53"
  shows "int (length (entries (run App es))) =
           25001 + int (inserts es) - int (removes_of_existing App es)"
  using run_App_exact(3) [OF assms]
  by simp

theorem length_counts_from_seed_witness:
  "25001 + int (inserts [Insert ''a'', Remove 0, Toggle 1, Remove 0]) \<le> 2 ^ 53 \<and>
   removes_of_existing App [Insert ''a'', Remove 0, Toggle 1, Remove 0] = 1 \<and>
   int (length (entries (run App [Insert ''a'', Remove 0, Toggle 1, Remove 0]))) = 25001"
proof -
  have r: "removes_of_existing App [Insert ''a'', Remove 0, Toggle 1, Remove 0] = 1"
    by (simp add: ids_onInsert ids_onRemove ids_onToggle heap_ok_App heap_ok_onInsert
        heap_ok_onRemove ids_App)
  from length_counts_from_seed [of "[Insert ''a'', Remove 0, Toggle 1, Remove 0]"] r
  show ?thesis by simp
qed

subsection \<open>Ids\<close>

lemma inserts_churn: "inserts (churn a k) = k"
  by (induction k arbitrary: a) simp_all

text \<open>
  A round of \<open>churn\<close> removes the entry it has inserted, as long as the counter counts:
  the ids of the collection are afterwards what they were, and each remove has found
  its id.
\<close>

lemma churn_run:
  "ids_ok s \<Longrightarrow> nextId s = int a \<Longrightarrow> int a + int k \<le> 2 ^ 53 \<Longrightarrow>
     ids (run s (churn a k)) = ids s \<and> removes_of_existing s (churn a k) = k"
proof (induction k arbitrary: a s)
  case 0
  show ?case by (simp add: run_Nil)
next
  case (Suc k)
  note ok = Suc.prems(1) and n = Suc.prems(2) and hi = Suc.prems(3)
  from ok have h: "heap_ok s" and below: "\<forall>i \<in> set (ids s). i < nextId s"
    by (simp_all add: ids_ok_def)
  have lo: "- (2 ^ 53) \<le> nextId s" and up: "nextId s < 2 ^ 53"
    using n hi by simp_all
  define s1 where "s1 = onInsert [] s"
  define s2 where "s2 = onRemove (int a) s1"
  have ok1: "ids_ok s1"
    unfolding s1_def using ok lo up by (rule ids_ok_onInsert)
  have i1: "ids s1 = ids s @ [int a]"
    by (simp add: s1_def ids_onInsert h n)
  have n1: "nextId s1 = int (Suc a)"
    using lo up by (simp add: s1_def onInsert_simps js_add_exact n)
  have ok2: "ids_ok s2"
    unfolding s2_def using ok1 by (rule ids_ok_onRemove)
  from below n have "int a \<notin> set (ids s)" by auto
  then have i2: "ids s2 = ids s"
    by (simp add: s2_def ids_onRemove i1 length_remove_absent)
  have n2: "nextId s2 = int (Suc a)"
    by (simp add: s2_def onRemove_simps n1)
  have hi2: "int (Suc a) + int k \<le> 2 ^ 53"
    using hi by simp
  from Suc.IH [OF ok2 n2 hi2] i2 i1 show ?case
    by (simp add: run_Cons s1_def [symmetric] s2_def [symmetric])
qed

text \<open>
  The state after \<open>2 ^ 53 - 25001\<close> such rounds from the seeded state: the collection
  reads as the seed, and the counter has reached \<open>2 ^ 53\<close>.
\<close>

lemma counter_at_top:
  "ids_ok (run App (churn 25001 9007199254715991))"
  "nextId (run App (churn 25001 9007199254715991)) = 9007199254740992"
  "ids (run App (churn 25001 9007199254715991)) = ids App"
  "removes_of_existing App (churn 25001 9007199254715991) = 9007199254715991"
  using run_App_exact [of "churn 25001 9007199254715991"]
    churn_run [OF ids_ok_App, of 25001 9007199254715991]
  by (simp_all add: inserts_churn App_nextId)

text \<open>
  Two more inserts both take the id \<open>2 ^ 53\<close>, so the ids of the collection are no
  longer pairwise distinct.
\<close>

theorem ids_reused_counterexample:
  "\<not> distinct (ids (run App (churn 25001 9007199254715991 @ [Insert [], Insert []])))"
proof -
  define s where "s = run App (churn 25001 9007199254715991)"
  have h: "heap_ok s" and n: "nextId s = 9007199254740992"
    using counter_at_top by (simp_all add: s_def ids_ok_def)
  have h1: "heap_ok (onInsert [] s)"
    using h by (rule heap_ok_onInsert)
  have n1: "nextId (onInsert [] s) = 9007199254740992"
    by (simp add: onInsert_simps n js_add_stuck)
  have "ids (onInsert [] (onInsert [] s)) = ids s @ [9007199254740992, 9007199254740992]"
    by (simp add: ids_onInsert h h1 n n1)
  then show ?thesis
    by (simp add: run_append run_Cons run_Nil s_def [symmetric])
qed

text \<open>
  Claim C7, with the counter in its exact range. After every run from the seeded state
  with at most \<open>2 ^ 53 - 25001\<close> inserts, the ids of the collection are pairwise distinct
  at every point of the run, and the id that a further insert assigns is in none of the
  collections the run has gone through, so no id comes back, also not after its entry
  was removed. The counter has not gone down, and it starts at 25001, above the seed ids
  0 to 25000.
\<close>

theorem ids_never_reused:
  assumes "25001 + int (inserts (es @ es')) \<le> 2 ^ 53"
  shows "distinct (ids (run App es)) \<and>
         id' (last (entries (onInsert str (run App (es @ es'))))) \<notin> set (ids (run App es)) \<and>
         nextId (run App es) \<le> nextId (run App (es @ es')) \<and>
         ids App = map int [0 ..< 25001] \<and> nextId App = 25001"
proof -
  from assms have b: "25001 + int (inserts es) \<le> 2 ^ 53"
    by (simp add: inserts_append)
  note e = run_App_exact [OF b] and e' = run_App_exact [OF assms]
  have mono: "nextId (run App es) \<le> nextId (run App (es @ es'))"
    by (simp add: e(2) e'(2) inserts_append)
  from e'(1) have "heap_ok (run App (es @ es'))"
    by (simp add: ids_ok_def)
  then have new: "id' (last (entries (onInsert str (run App (es @ es'))))) = nextId (run App (es @ es'))"
    by (simp add: entries_onInsert)
  from e(1) have "\<forall>i \<in> set (ids (run App es)). i < nextId (run App es)"
    by (simp add: ids_ok_def)
  with mono have "nextId (run App (es @ es')) \<notin> set (ids (run App es))"
    by auto
  with new e(1) mono show ?thesis
    by (simp add: ids_ok_def ids_App App_nextId)
qed

theorem ids_never_reused_witness:
  "25001 + int (inserts ([Insert ''a'', Remove 25001] @ [Insert ''b''])) \<le> 2 ^ 53 \<and>
   distinct (ids (run App [Insert ''a'', Remove 25001])) \<and>
   id' (last (entries (onInsert ''c'' (run App ([Insert ''a'', Remove 25001] @ [Insert ''b'']))))) = 25003 \<and>
   25003 \<notin> set (ids (run App [Insert ''a'', Remove 25001])) \<and>
   nextId (run App [Insert ''a'', Remove 25001]) \<le>
     nextId (run App ([Insert ''a'', Remove 25001] @ [Insert ''b'']))"
proof -
  have h: "heap_ok (run App [Insert ''a'', Remove 25001, Insert ''b''])"
    by (simp add: run_def heap_ok_onInsert heap_ok_onRemove heap_ok_App)
  have n: "nextId (run App [Insert ''a'', Remove 25001, Insert ''b'']) = 25003"
    by (simp add: run_def onInsert_simps onRemove_simps App_nextId js_add_exact)
  from ids_never_reused [of "[Insert ''a'', Remove 25001]" "[Insert ''b'']" "''c''"] h n
  show ?thesis by (simp add: entries_onInsert)
qed

text \<open>
  With the counter stuck at \<open>2 ^ 53\<close> the length goes wrong as well: two entries share
  the id, and one remove takes both.
\<close>

lemma length_after_counter_stuck:
  "int (length (entries (run App
      (churn 25001 9007199254715991 @ [Insert [], Insert [], Remove 9007199254740992])))) \<noteq>
   25001 + int (inserts
      (churn 25001 9007199254715991 @ [Insert [], Insert [], Remove 9007199254740992])) -
   int (removes_of_existing App
      (churn 25001 9007199254715991 @ [Insert [], Insert [], Remove 9007199254740992]))"
proof -
  define s where "s = run App (churn 25001 9007199254715991)"
  have ok: "ids_ok s" and n: "nextId s = 9007199254740992" and i0: "ids s = ids App"
    using counter_at_top by (simp_all add: s_def)
  from ok have h: "heap_ok s" and below: "\<forall>i \<in> set (ids s). i < nextId s"
    by (simp_all add: ids_ok_def)
  have l: "length (entries s) = 25001"
    using i0 by (metis length_ids entries_App length_map length_upt diff_zero)
  have h1: "heap_ok (onInsert [] s)"
    using h by (rule heap_ok_onInsert)
  have n1: "nextId (onInsert [] s) = 9007199254740992"
    by (simp add: onInsert_simps n js_add_stuck)
  have i2: "ids (onInsert [] (onInsert [] s)) = ids s @ [9007199254740992, 9007199254740992]"
    by (simp add: ids_onInsert h h1 n n1)
  from below n have "9007199254740992 \<notin> set (ids s)" by auto
  then have "ids (onRemove 9007199254740992 (onInsert [] (onInsert [] s))) = ids s"
    by (simp add: ids_onRemove i2 length_remove_absent)
  then have "length (entries (onRemove 9007199254740992 (onInsert [] (onInsert [] s)))) =
      length (entries s)"
    by (metis length_ids)
  then show ?thesis
    by (simp add: run_append run_Cons run_Nil s_def [symmetric] inserts_append inserts_churn
        removes_of_existing_append counter_at_top(4) i2 l)
qed

subsection \<open>The scenario\<close>

text \<open>
  From the seeded state the scenario with \<open>remove(1)\<close> and \<open>toggle(2)\<close> does not end in
  the two-entry collection: the seed entries are still there.
\<close>

theorem scenario_counterexample:
  "entries (run App [Insert ''a'', Insert ''b'', Insert ''c'', Remove 1, Toggle 2]) \<noteq>
     [\<lparr>id' = 0, text' = ''a'', checked = False\<rparr>, \<lparr>id' = 2, text' = ''c'', checked = True\<rparr>]"
proof
  assume a: "entries (run App [Insert ''a'', Insert ''b'', Insert ''c'', Remove 1, Toggle 2]) =
     [\<lparr>id' = 0, text' = ''a'', checked = False\<rparr>, \<lparr>id' = 2, text' = ''c'', checked = True\<rparr>]"
  from run_App_exact(3) [of "[Insert ''a'', Insert ''b'', Insert ''c'', Remove 1, Toggle 2]"]
  show False
    unfolding a by (simp split: if_splits)
qed

text \<open>
  Claim C9, from the seeded state. Inserting \<open>a\<close>, \<open>b\<close>, \<open>c\<close> assigns the ids 25001,
  25002, 25003, after the seed entries; then \<open>remove(25002)\<close> and \<open>toggle(25003)\<close> leave
  the seed entries followed by \<open>{25001, a, false}\<close> and \<open>{25003, c, true}\<close>.
\<close>

theorem scenario_from_seed:
  "entries (run App [Insert ''a'', Insert ''b'', Insert ''c'']) =
     entries App @ [\<lparr>id' = 25001, text' = ''a'', checked = False\<rparr>,
                    \<lparr>id' = 25002, text' = ''b'', checked = False\<rparr>,
                    \<lparr>id' = 25003, text' = ''c'', checked = False\<rparr>] \<and>
   entries (run App [Insert ''a'', Insert ''b'', Insert ''c'', Remove 25002, Toggle 25003]) =
     entries App @ [\<lparr>id' = 25001, text' = ''a'', checked = False\<rparr>,
                    \<lparr>id' = 25003, text' = ''c'', checked = True\<rparr>]"
proof -
  define s1 where "s1 = onInsert ''a'' App"
  define s2 where "s2 = onInsert ''b'' s1"
  define s3 where "s3 = onInsert ''c'' s2"
  define s4 where "s4 = onRemove 25002 s3"
  have h1: "heap_ok s1" unfolding s1_def by (rule heap_ok_onInsert) (rule heap_ok_App)
  have h2: "heap_ok s2" unfolding s2_def using h1 by (rule heap_ok_onInsert)
  have h3: "heap_ok s3" unfolding s3_def using h2 by (rule heap_ok_onInsert)
  have h4: "heap_ok s4" unfolding s4_def using h3 by (rule heap_ok_onRemove)
  have e1: "entries s1 = entries App @ [\<lparr>id' = 25001, text' = ''a'', checked = False\<rparr>]"
    and n1: "nextId s1 = 25002"
    by (simp_all add: s1_def entries_onInsert heap_ok_App onInsert_simps App_nextId js_add_exact)
  have e2: "entries s2 = entries s1 @ [\<lparr>id' = 25002, text' = ''b'', checked = False\<rparr>]"
    and n2: "nextId s2 = 25003"
    by (simp_all add: s2_def entries_onInsert h1 onInsert_simps n1 js_add_exact)
  have e3: "entries s3 = entries s2 @ [\<lparr>id' = 25003, text' = ''c'', checked = False\<rparr>]"
    by (simp add: s3_def entries_onInsert h2 n2)
  have a1: "(25002::int) \<notin> id' ` set (entries App)" and a2: "(25003::int) \<notin> id' ` set (entries App)"
    by (simp_all add: seed_ids)
  have e4: "entries s4 = entries App @ [\<lparr>id' = 25001, text' = ''a'', checked = False\<rparr>,
                    \<lparr>id' = 25003, text' = ''c'', checked = False\<rparr>]"
    by (simp add: s4_def entries_onRemove e3 e2 e1 filter_absent [OF a1])
  have e5: "entries (onToggle 25003 s4) = entries App @ [\<lparr>id' = 25001, text' = ''a'', checked = False\<rparr>,
                    \<lparr>id' = 25003, text' = ''c'', checked = True\<rparr>]"
    by (simp add: entries_onToggle [OF h4] e4 toggle_entry_absent [OF a2]) (simp add: toggle_entry_def)
  show ?thesis
    using e1 e2 e3 e5 by (simp add: run_def s1_def s2_def s3_def s4_def)
qed

text \<open>
  From an empty collection with the counter at 0, which the component never is in, the
  handlers give the scenario as it was written: ids 0, 1, 2 and two entries at the end.
\<close>

lemma scenario_from_blank:
  "ids (run blank [Insert ''a'', Insert ''b'', Insert ''c'']) = [0, 1, 2] \<and>
   entries (run blank [Insert ''a'', Insert ''b'', Insert ''c'', Remove 1, Toggle 2]) =
     [\<lparr>id' = 0, text' = ''a'', checked = False\<rparr>, \<lparr>id' = 2, text' = ''c'', checked = True\<rparr>]"
  by (simp add: run_def blank_def empty_heap_def onInsert_def alloc_def onRemove_def onToggle_def
      toggle_todo_def deref_def entries_def ids_def js_add_exact)

section \<open>What is left out\<close>

text \<open>
  Claim C8 is about the identity of the function objects that \<open>useCallback\<close> hands out
  from one render to the next, and about React applying a queued updater to the state of
  the moment. Both are the work of React's runtime; \<open>App.js\<close> contributes the empty
  dependency lists and the updater functions. Here a handler is a function on the state
  of the component: it has no identity of its own, and there is no earlier state it could
  have kept. The claim is not stated in this theory.
\<close>

end
